theory Spec2Isabelle
  imports Main
begin

section \<open>Frame codec: the line reader (core/framing.py)\<close>

text \<open>
  A Python \<^verbatim>\<open>bytearray\<close> is a list of bytes; HOL's \<^typ>\<open>char\<close> is a byte, so the
  buffer is a \<^typ>\<open>string\<close>.  The reader keeps the bytes received so far that are not
  yet part of a line (\<^verbatim>\<open>_data\<close>) and the terminator that ended the previous line
  (\<^verbatim>\<open>_last_char\<close>, initially \<^verbatim>\<open>None\<close>).  Every call of the callback
  \<^verbatim>\<open>_on_line_cb\<close> is recorded, in order, in a list of emitted lines.
\<close>

definition CR :: char where
  "CR = CHR 0x0D"

definition LF :: char where
  "LF = CHR 0x0A"

record line_reader =
  lr_data :: string
  lr_last_char :: "char option"

definition LineReader_init :: line_reader where
  "LineReader_init = \<lparr>lr_data = [], lr_last_char = None\<rparr>"

text \<open>\<^verbatim>\<open>bytearray.find(byte)\<close>: the index of the first occurrence, or -1.\<close>

fun find_byte :: "string \<Rightarrow> char \<Rightarrow> int" where
  "find_byte [] c = -1"
| "find_byte (x # xs) c =
     (if x = c then 0
      else (let r = find_byte xs c in if r = -1 then -1 else r + 1))"

text \<open>\<^verbatim>\<open>line.decode(encoding='ascii')\<close> raises on a byte above 127; both branches of
  the reader catch the exception and go on without a decoded string.\<close>

definition decode_ascii :: "string \<Rightarrow> string option" where
  "decode_ascii line =
     (if list_all (\<lambda>c. (of_char c :: nat) < 128) line then Some line else None)"

text \<open>The lines handed to the callback when a \<^verbatim>\<open>\n\<close> is consumed: the guard is
  \<^verbatim>\<open>if s:\<close>, the truth value of the decoded string.\<close>

definition emit_lf :: "string \<Rightarrow> char option \<Rightarrow> string list" where
  "emit_lf line prev =
     (if line \<noteq> [] \<or> prev = Some LF then
        (case decode_ascii line of
           None \<Rightarrow> []
         | Some s \<Rightarrow> if s \<noteq> [] then [s] else [])
      else [])"

text \<open>The lines handed to the callback when a \<^verbatim>\<open>\r\<close> is consumed: the guard is
  \<^verbatim>\<open>if decoded is not None:\<close>.\<close>

definition emit_cr :: "string \<Rightarrow> char option \<Rightarrow> string list" where
  "emit_cr line prev =
     (if line \<noteq> [] \<or> prev = Some CR then
        (case decode_ascii line of
           None \<Rightarrow> []
         | Some decoded \<Rightarrow> [decoded])
      else [])"

lemma find_byte_ge: "- 1 \<le> find_byte d c"
  by (induction d) (auto simp: Let_def)

lemma find_byte_Nil_iff: "find_byte d c = -1 \<longleftrightarrow> c \<notin> set d"
proof (induction d)
  case Nil
  show ?case by simp
next
  case (Cons x xs)
  have "find_byte xs c + 1 \<noteq> - 1"
    using find_byte_ge [of xs c] by arith
  with Cons show ?case by (auto simp: Let_def)
qed

text \<open>
  The \<^verbatim>\<open>while True\<close> loop of \<^verbatim>\<open>data_received\<close>.  The second argument collects the
  callback calls made so far.  The loop body is an \<^verbatim>\<open>if\<close>/\<^verbatim>\<open>elif\<close> without a final
  \<^verbatim>\<open>else\<close>: an iteration in which neither branch is taken changes nothing, so the
  loop would spin forever; that outcome is the value \<open>None\<close>.
\<close>

function read_loop :: "line_reader \<Rightarrow> string list \<Rightarrow> (line_reader \<times> string list) option" where
  "read_loop s out =
     (let ix = find_byte (lr_data s) CR;
          ix2 = find_byte (lr_data s) LF
      in if ix = -1 \<and> ix2 = -1 then Some (s, out)
         else if ix = -1 \<or> (ix2 > -1 \<and> ix2 < ix) then
           read_loop
             \<lparr>lr_data = drop (nat ix2 + 1) (lr_data s), lr_last_char = Some LF\<rparr>
             (out @ emit_lf (take (nat ix2) (lr_data s)) (lr_last_char s))
         else if ix2 = -1 \<or> (ix > -1 \<and> ix < ix2) then
           read_loop
             \<lparr>lr_data = drop (nat ix + 1) (lr_data s), lr_last_char = Some CR\<rparr>
             (out @ emit_cr (take (nat ix) (lr_data s)) (lr_last_char s))
         else None)"
  by pat_completeness auto

termination read_loop
proof (relation "measure (\<lambda>(s, out). length (lr_data s))")
  show "wf (measure (\<lambda>(s, out). length (lr_data s)))" by simp
next
  fix s :: line_reader and out :: "string list" and x xa
  assume "x = find_byte (lr_data s) CR" "xa = find_byte (lr_data s) LF"
         "\<not> (x = - 1 \<and> xa = - 1)"
  then have "lr_data s \<noteq> []" by auto
  then show "((\<lparr>lr_data = drop (nat xa + 1) (lr_data s), lr_last_char = Some LF\<rparr>,
               out @ emit_lf (take (nat xa) (lr_data s)) (lr_last_char s)), s, out)
             \<in> measure (\<lambda>(s, out). length (lr_data s))"
    by simp
next
  fix s :: line_reader and out :: "string list" and x xa
  assume "x = find_byte (lr_data s) CR" "xa = find_byte (lr_data s) LF"
         "\<not> (x = - 1 \<and> xa = - 1)"
  then have "lr_data s \<noteq> []" by auto
  then show "((\<lparr>lr_data = drop (nat x + 1) (lr_data s), lr_last_char = Some CR\<rparr>,
               out @ emit_cr (take (nat x) (lr_data s)) (lr_last_char s)), s, out)
             \<in> measure (\<lambda>(s, out). length (lr_data s))"
    by simp
qed

text \<open>\<^verbatim>\<open>LineReader.data_received(data)\<close>: append the chunk, then run the loop.\<close>

definition data_received :: "line_reader \<Rightarrow> string \<Rightarrow> (line_reader \<times> string list) option" where
  "data_received s chunk = read_loop (s\<lparr>lr_data := lr_data s @ chunk\<rparr>) []"

text \<open>Delivering a list of chunks one call of \<^verbatim>\<open>data_received\<close> after the other;
  the emitted lines of all calls are collected in order.\<close>

fun feed_chunks :: "line_reader \<Rightarrow> string list \<Rightarrow> (line_reader \<times> string list) option" where
  "feed_chunks s [] = Some (s, [])"
| "feed_chunks s (c # cs) =
     (case data_received s c of
        None \<Rightarrow> None
      | Some (s', ls) \<Rightarrow>
          (case feed_chunks s' cs of
             None \<Rightarrow> None
           | Some (s'', ls') \<Rightarrow> Some (s'', ls @ ls')))"

subsection \<open>Properties of the loop\<close>

declare read_loop.simps [simp del]

lemma find_byte_first:
  "c \<notin> set p \<Longrightarrow> find_byte (p @ c # rest) c = int (length p)"
  by (induction p) (auto simp: Let_def)

lemma find_byte_append_notin:
  "c \<notin> set p \<Longrightarrow> find_byte (p @ rest) c = (if c \<in> set rest then int (length p) + find_byte rest c else -1)"
  apply (induction p) apply (auto simp: Let_def find_byte_Nil_iff)
  done

lemma find_byte_nonneg: "c \<in> set d \<Longrightarrow> 0 \<le> find_byte d c"
  using find_byte_ge [of d c] find_byte_Nil_iff [of d c] by arith

lemma read_loop_no_term:
  "CR \<notin> set (lr_data s) \<Longrightarrow> LF \<notin> set (lr_data s) \<Longrightarrow> read_loop s out = Some (s, out)"
  by (subst read_loop.simps) (simp add: find_byte_Nil_iff)

lemma CR_neq_LF: "CR \<noteq> LF"
  by (simp add: CR_def LF_def)

text \<open>Whatever the buffer and the previous terminator, consuming a \<^verbatim>\<open>\n\<close> never hands
  an empty line to the callback; consuming a \<^verbatim>\<open>\r\<close> after a \<^verbatim>\<open>\r\<close> does.\<close>

lemma emit_lf_never_empty: "x \<in> set (emit_lf ln prev) \<Longrightarrow> x \<noteq> []"
  unfolding emit_lf_def
  apply (cases "decode_ascii ln")
   apply (simp_all only: option.case if_cancel list.set empty_iff split: if_splits)
   apply (simp only: list.set insert_iff empty_iff)
  apply blast
  done

lemma emit_cr_empty_after_cr: "emit_cr [] (Some CR) = [[]]"
  by (simp add: emit_cr_def decode_ascii_def)

lemma read_loop_LF:
  assumes "CR \<notin> set p" "LF \<notin> set p"
  shows "read_loop \<lparr>lr_data = p @ LF # rest, lr_last_char = l\<rparr> out
     = read_loop \<lparr>lr_data = rest, lr_last_char = Some LF\<rparr> (out @ emit_lf p l)"
proof -
  have a: "find_byte (p @ LF # rest) LF = int (length p)"
    using assms by (simp add: find_byte_first)
  have b: "find_byte (p @ LF # rest) CR = -1 \<or> find_byte (p @ LF # rest) CR > int (length p)"
    using assms CR_neq_LF find_byte_nonneg[of CR rest] by (auto simp add: find_byte_append_notin Let_def find_byte_Nil_iff)
  show ?thesis
    apply (subst read_loop.simps)
    using a b by (auto simp: Let_def)
qed

lemma read_loop_CR:
  assumes "CR \<notin> set p" "LF \<notin> set p"
  shows "read_loop \<lparr>lr_data = p @ CR # rest, lr_last_char = l\<rparr> out
     = read_loop \<lparr>lr_data = rest, lr_last_char = Some CR\<rparr> (out @ emit_cr p l)"
proof -
  have a: "find_byte (p @ CR # rest) CR = int (length p)"
    using assms by (simp add: find_byte_first)
  have b: "find_byte (p @ CR # rest) LF = -1 \<or> find_byte (p @ CR # rest) LF > int (length p)"
    using assms CR_neq_LF find_byte_nonneg[of LF rest] by (auto simp add: find_byte_append_notin Let_def find_byte_Nil_iff)
  show ?thesis
    apply (subst read_loop.simps)
    using a b by (auto simp: Let_def)
qed

lemma split_first_term:
  assumes "CR \<in> set d \<or> LF \<in> set d"
  shows "\<exists>p t rest. d = p @ t # rest \<and> CR \<notin> set p \<and> LF \<notin> set p \<and> (t = CR \<or> t = LF)"
proof -
  from assms have "\<exists>x\<in>set d. x = CR \<or> x = LF" by auto
  then obtain p t rest where "d = p @ t # rest" "t = CR \<or> t = LF" "\<forall>y\<in>set p. \<not> (y = CR \<or> y = LF)"
    using split_list_first_prop [of d "\<lambda>x. x = CR \<or> x = LF"] by blast
  then show ?thesis by blast
qed

lemma read_loop_append:
  "read_loop \<lparr>lr_data = d @ c, lr_last_char = l\<rparr> out =
     (case read_loop \<lparr>lr_data = d, lr_last_char = l\<rparr> out of
        None \<Rightarrow> None
      | Some (s', out') \<Rightarrow> read_loop \<lparr>lr_data = lr_data s' @ c, lr_last_char = lr_last_char s'\<rparr> out')"
proof (induction d arbitrary: l out rule: length_induct)
  case (1 d)
  show ?case
  proof (cases "CR \<in> set d \<or> LF \<in> set d")
    case False
    then show ?thesis by (simp add: read_loop_no_term)
  next
    case True
    then obtain p t rest where d: "d = p @ t # rest" and p: "CR \<notin> set p" "LF \<notin> set p"
      and t: "t = CR \<or> t = LF"
      using split_first_term by blast
    have len: "length rest < length d" using d by simp
    from t show ?thesis
    proof
      assume "t = CR"
      then show ?thesis
        using p d 1 [rule_format, OF len] by (simp add: read_loop_CR)
    next
      assume "t = LF"
      then show ?thesis
        using p d 1 [rule_format, OF len] by (simp add: read_loop_LF)
    qed
  qed
qed

lemma read_loop_total_rec:
  "\<exists>s' out'. read_loop \<lparr>lr_data = d, lr_last_char = l\<rparr> out = Some (s', out')"
proof (induction d arbitrary: l out rule: length_induct)
  case (1 d)
  show ?case
  proof (cases "CR \<in> set d \<or> LF \<in> set d")
    case False
    then show ?thesis by (simp add: read_loop_no_term)
  next
    case True
    then obtain p t rest where d: "d = p @ t # rest" and p: "CR \<notin> set p" "LF \<notin> set p"
      and t: "t = CR \<or> t = LF"
      using split_first_term by blast
    have len: "length rest < length d" using d by simp
    from t show ?thesis
    proof
      assume "t = CR"
      then show ?thesis
        using p d 1 [rule_format, OF len] by (simp add: read_loop_CR)
    next
      assume "t = LF"
      then show ?thesis
        using p d 1 [rule_format, OF len] by (simp add: read_loop_LF)
    qed
  qed
qed

lemma read_loop_out_rec:
  "read_loop \<lparr>lr_data = d, lr_last_char = l\<rparr> out =
     map_option (\<lambda>(s', ls). (s', out @ ls)) (read_loop \<lparr>lr_data = d, lr_last_char = l\<rparr> [])"
proof (induction d arbitrary: l out rule: length_induct)
  case (1 d)
  show ?case
  proof (cases "CR \<in> set d \<or> LF \<in> set d")
    case False
    then show ?thesis by (simp add: read_loop_no_term)
  next
    case True
    then obtain p t rest where d: "d = p @ t # rest" and p: "CR \<notin> set p" "LF \<notin> set p"
      and t: "t = CR \<or> t = LF"
      using split_first_term by blast
    have len: "length rest < length d" using d by simp
    have ih: "read_loop \<lparr>lr_data = rest, lr_last_char = c\<rparr> o' =
        map_option (\<lambda>(s', ls). (s', o' @ ls)) (read_loop \<lparr>lr_data = rest, lr_last_char = c\<rparr> [])" for c o'
      using 1 [rule_format, OF len] .
    from t show ?thesis
    proof
      assume "t = CR"
      then show ?thesis
        using p d ih [of "Some CR" "out @ emit_cr p l"] ih [of "Some CR" "emit_cr p l"]
        by (simp add: read_loop_CR option.map_comp comp_def split_def)
    next
      assume "t = LF"
      then show ?thesis
        using p d ih [of "Some LF" "out @ emit_lf p l"] ih [of "Some LF" "emit_lf p l"]
        by (simp add: read_loop_LF option.map_comp comp_def split_def)
    qed
  qed
qed

lemma read_loop_total: "\<exists>s' out'. read_loop s out = Some (s', out')"
proof (cases s)
  case (fields d l)
  then show ?thesis using read_loop_total_rec [of d l out] by simp
qed

lemma read_loop_out: "read_loop s out = map_option (\<lambda>(s', ls). (s', out @ ls)) (read_loop s [])"
proof (cases s)
  case (fields d l)
  then show ?thesis using read_loop_out_rec [of d l out] by simp
qed

lemma data_received_append:
  "data_received s (a @ b) =
     (case data_received s a of None \<Rightarrow> None
      | Some (s', ls) \<Rightarrow> (case data_received s' b of None \<Rightarrow> None
          | Some (s'', ls') \<Rightarrow> Some (s'', ls @ ls')))"
proof (cases s)
  case (fields d l)
  obtain s' ls where a: "data_received s a = Some (s', ls)"
    using read_loop_total unfolding data_received_def by blast
  obtain d' l' where s': "s' = \<lparr>lr_data = d', lr_last_char = l'\<rparr>"
    by (cases s') simp
  have "data_received s (a @ b) = read_loop \<lparr>lr_data = d' @ b, lr_last_char = l'\<rparr> ls"
    using a fields s' read_loop_append [of "d @ a" b l "[]"]
    by (simp add: data_received_def)
  also have "\<dots> = map_option (\<lambda>(s'', ls'). (s'', ls @ ls')) (data_received s' b)"
    using s' read_loop_out_rec [of "d' @ b" l' ls]
    by (simp add: data_received_def)
  finally show ?thesis using a by (simp add: map_option_case split: option.splits)
qed


subsection \<open>The framing examples\<close>

text \<open>
  Claim C3.  The reader emits no empty line between a CR and a directly following LF, and
  for two successive CRs it emits an empty line: \<^verbatim>\<open>"hello\r\nabc\r\n"\<close> gives
  \<^verbatim>\<open>["hello", "abc"]\<close> and \<^verbatim>\<open>"hello\r\r"\<close> gives \<^verbatim>\<open>["hello", ""]\<close>.  For two
  successive LFs the \<^verbatim>\<open>\n\<close> branch tests \<^verbatim>\<open>if s:\<close> where the \<^verbatim>\<open>\r\<close> branch tests
  \<^verbatim>\<open>if decoded is not None:\<close>, so the empty line is dropped: \<^verbatim>\<open>"hello\n\n"\<close> gives
  \<^verbatim>\<open>["hello"]\<close>, not \<^verbatim>\<open>["hello", ""]\<close>.
\<close>

theorem C3_line_reader_examples:
  "data_received LineReader_init (''hello'' @ [CR, LF] @ ''abc'' @ [CR, LF])
     = Some (\<lparr>lr_data = [], lr_last_char = Some LF\<rparr>, [''hello'', ''abc''])
   \<and> data_received LineReader_init (''hello'' @ [CR, CR])
     = Some (\<lparr>lr_data = [], lr_last_char = Some CR\<rparr>, [''hello'', []])
   \<and> data_received LineReader_init (''hello'' @ [LF, LF])
     = Some (\<lparr>lr_data = [], lr_last_char = Some LF\<rparr>, [''hello''])"
  by code_simp

subsection \<open>Chunking\<close>

text \<open>
  Claim C7.  The output of the line reader does not depend on how the byte stream is cut
  into chunks: from any reader state, delivering one or more chunks one by one returns, and
  it ends in the same state and has emitted the same lines as delivering their
  concatenation in one call.
\<close>

theorem C7_chunking_invariance:
  "feed_chunks s (c # cs) = data_received s (concat (c # cs))
   \<and> (\<exists>s' ls. data_received s (concat (c # cs)) = Some (s', ls))"
proof
  show "feed_chunks s (c # cs) = data_received s (concat (c # cs))"
  proof (induction cs arbitrary: s c)
    case Nil
    then show ?case by (auto split: option.splits)
  next
    case (Cons c' cs)
    show ?case
      using Cons [of _ c']
      by (simp add: data_received_append [of s c] split: option.splits)
  qed
  show "\<exists>s' ls. data_received s (concat (c # cs)) = Some (s', ls)"
    unfolding data_received_def by (rule read_loop_total)
qed

theorem C7_chunking_invariance_witness:
  "feed_chunks LineReader_init [''h'', ''ello'' @ [CR, LF]]
     = Some (\<lparr>lr_data = [], lr_last_char = Some LF\<rparr>, [''hello''])"
proof -
  have "data_received LineReader_init (concat [''h'', ''ello'' @ [CR, LF]])
          = Some (\<lparr>lr_data = [], lr_last_char = Some LF\<rparr>, [''hello''])"
    by code_simp
  then show ?thesis
    using C7_chunking_invariance [of LineReader_init "''h''" "[''ello'' @ [CR, LF]]"]
    by simp
qed

section \<open>Python values and errors\<close>

text \<open>
  Scalar Python values as the code compares them: \<^verbatim>\<open>None\<close>, an \<^verbatim>\<open>int\<close> or a \<^verbatim>\<open>str\<close>.
  Python's \<^verbatim>\<open>==\<close> between a \<^verbatim>\<open>str\<close> and an \<^verbatim>\<open>int\<close> is \<^verbatim>\<open>False\<close>; the
  datatype's equality is the same.  Message bodies add dictionaries and lists.
\<close>

datatype pyatom = PyNone | PyInt int | PyStr string

datatype pyval = Atom pyatom | PyDict "(pyatom \<times> pyval) list" | PyList "pyval list"

type_synonym msg = "(string \<times> pyval) list"

datatype py_error =
    KeyError
  | TypeError
  | ValueError
  | AttributeError
  | AssertionError
  | TypeException
  | Exception string
  | ParseError string

section \<open>The node: ComponentBase (core/componentbase.py, core/ssplink.py)\<close>

definition SSP_INVALID_COMPONENT_ID :: int where
  "SSP_INVALID_COMPONENT_ID = 0"

definition SSP_CENTRAL_ID :: int where
  "SSP_CENTRAL_ID = 1"

definition SSP_LINK_ID :: int where
  "SSP_LINK_ID = 255"

definition SSP_COMPONENT_MODULUS :: int where
  "SSP_COMPONENT_MODULUS = 128"

definition SSP_BIGGEST_REGULAR_COMPONENT_ID :: int where
  "SSP_BIGGEST_REGULAR_COMPONENT_ID = SSP_COMPONENT_MODULUS - 4"

text \<open>
  A \<^verbatim>\<open>Link\<close> object and a callback are compared by identity only (no class of the
  repository's core defines \<^verbatim>\<open>__eq__\<close>), so each is a number naming the object.
\<close>

type_synonym link = nat

type_synonym callback = nat

text \<open>The entries of the central directory: a dict with keys \<^verbatim>\<open>id\<close>, \<^verbatim>\<open>name\<close>,
  \<^verbatim>\<open>serial\<close>.\<close>

record component_entry =
  e_id :: pyatom
  e_name :: string
  e_serial :: pyatom

record central =
  all_components :: "component_entry list"

text \<open>
  What the node asks of its collaborators (the component object, its internal objects, the
  links, the system view) is recorded as a trace of events, in call order.  The component
  object is always there: the one place that constructs a \<^verbatim>\<open>ComponentBase\<close>
  (\<^verbatim>\<open>LocalComponent.__init__\<close>) passes the component itself.
\<close>

text \<open>A destination address as the frame codecs deliver it: an integer, or the string
  \<^verbatim>\<open>'null'\<close> that \<^verbatim>\<open>handle_message\<close> treats like the link-local address.\<close>

datatype dest = Dest_id int | Dest_null

text \<open>The argument of \<^verbatim>\<open>self.error(...)\<close>, one constructor for each call site in
  \<^verbatim>\<open>handle_message\<close>.\<close>

datatype diagnostic =
    Invalid_to msg
  | Same_link_route link msg
  | Same_link_parent link dest msg
  | No_route dest msg

datatype event =
    Emit_event string string
  | Link_err diagnostic
  | Route_msg_evt nat bool msg
  | Link_send link dest msg
  | Register_report pyatom
  | Mark_as_updated string
  | Component_on_networked
  | Internal_on_networked nat
  | Component_on_non_networked
  | Internal_on_non_networked nat
  | Consumed_by_node
  | Consumed_link_local

text \<open>The fields of \<^verbatim>\<open>ComponentBase\<close> that the modelled methods read or write.
  \<^verbatim>\<open>links\<close> holds \<^verbatim>\<open>None\<close> where a link was removed; \<^verbatim>\<open>_internal_objects\<close> is kept as
  the list of its keys in insertion order.\<close>

record node =
  link_neighbors :: "link \<rightharpoonup> int"
  links :: "link option list"
  routes :: "int \<rightharpoonup> link"
  parent :: int
  base_priority :: int
  priority :: int
  name :: string
  componentId :: int
  serial :: pyatom
  reply_callbacks :: "int \<rightharpoonup> callback"
  last_ticket :: int
  internal_objects :: "nat list"
  central_of :: "central option"

text \<open>\<^verbatim>\<open>ComponentBase.__init__\<close>; the default serial \<^verbatim>\<open>id(self) % 0xFFFFFFFF\<close> is
  some integer, passed in.\<close>

definition ComponentBase_init :: "string \<Rightarrow> pyatom \<Rightarrow> node" where
  "ComponentBase_init nm ser =
     \<lparr>link_neighbors = Map.empty, links = [], routes = Map.empty, parent = 0,
      base_priority = 0, priority = 0, name = nm, componentId = 0, serial = ser,
      reply_callbacks = Map.empty, last_ticket = 0, internal_objects = [],
      central_of = None\<rparr>"

subsection \<open>Tickets\<close>

text \<open>
  The \<^verbatim>\<open>for i in range(250)\<close> loop of \<^verbatim>\<open>make_ticket_with_callback\<close>, with its
  \<^verbatim>\<open>break\<close>: the first argument counts the iterations left, the result is
  \<^verbatim>\<open>_last_ticket\<close> when the loop is left.
\<close>

fun advance_ticket :: "nat \<Rightarrow> (int \<rightharpoonup> callback) \<Rightarrow> int \<Rightarrow> int" where
  "advance_ticket 0 cbs t = t"
| "advance_ticket (Suc n) cbs t =
     (let t' = (if t \<ge> 250 then 1 else t + 1)
      in if cbs t' = None then t' else advance_ticket n cbs t')"

text \<open>\<^verbatim>\<open>make_ticket_with_callback\<close>: the node after the call (\<^verbatim>\<open>_last_ticket\<close> is
  advanced also when the call raises) and either the exception or the ticket.\<close>

definition make_ticket_with_callback :: "node \<Rightarrow> callback \<Rightarrow> node \<times> (py_error + int)" where
  "make_ticket_with_callback b cb =
     (let t = advance_ticket 250 (reply_callbacks b) (last_ticket b);
          b1 = b\<lparr>last_ticket := t\<rparr>
      in if reply_callbacks b1 t \<noteq> None then (b1, Inl (Exception ''All tickets are occupied''))
         else (b1\<lparr>reply_callbacks := (reply_callbacks b1)(t \<mapsto> cb)\<rparr>, Inr t))"

text \<open>\<^verbatim>\<open>remove_ticket\<close>.\<close>

definition remove_ticket :: "node \<Rightarrow> int \<Rightarrow> node" where
  "remove_ticket b ticket =
     (if reply_callbacks b ticket = None then b
      else b\<lparr>reply_callbacks := (reply_callbacks b)(ticket := None)\<rparr>)"

text \<open>
  Claim C10.  \<^verbatim>\<open>remove_ticket\<close> has no failing path; called with a ticket that is not
  registered it leaves the node, and so the table of reply callbacks, unchanged, and
  releasing a ticket a second time changes nothing.
\<close>

theorem C10_remove_ticket_idempotent:
  "(reply_callbacks b t = None \<longrightarrow> remove_ticket b t = b)
   \<and> reply_callbacks (remove_ticket b t) t = None
   \<and> remove_ticket (remove_ticket b t) t = remove_ticket b t"
  by (simp add: remove_ticket_def)

theorem C10_remove_ticket_idempotent_witness:
  "reply_callbacks (ComponentBase_init ''a'' (PyInt 7)) 5 = None
   \<and> remove_ticket (ComponentBase_init ''a'' (PyInt 7)) 5 = ComponentBase_init ''a'' (PyInt 7)"
  using C10_remove_ticket_idempotent [of "ComponentBase_init ''a'' (PyInt 7)" 5]
  by (simp add: ComponentBase_init_def)

text \<open>One iteration's update of \<^verbatim>\<open>_last_ticket\<close>, named for the proofs.\<close>

definition next_ticket :: "int \<Rightarrow> int" where
  "next_ticket t = (if t \<ge> 250 then 1 else t + 1)"


text \<open>A node on which tickets 1 to 249 are outstanding, as after 249 calls without a
  release, and one on which tickets 1 to 250 are.\<close>

definition node_249_outstanding :: node where
  "node_249_outstanding =
     (ComponentBase_init ''n'' (PyInt 1))
       \<lparr>reply_callbacks := (\<lambda>k. if 1 \<le> k \<and> k \<le> 249 then Some 0 else None),
        last_ticket := 249\<rparr>"

definition node_250_outstanding :: node where
  "node_250_outstanding =
     (ComponentBase_init ''n'' (PyInt 1))
       \<lparr>reply_callbacks := (\<lambda>k. if 1 \<le> k \<and> k \<le> 250 then Some 0 else None),
        last_ticket := 250\<rparr>"

lemma advance_ticket_Suc:
  "advance_ticket (Suc n) cbs t =
     (if cbs (next_ticket t) = None then next_ticket t
      else advance_ticket n cbs (next_ticket t))"
  by (simp add: next_ticket_def Let_def)

declare advance_ticket.simps(2) [simp del]

lemma next_ticket_range:
  "0 \<le> t \<Longrightarrow> t \<le> 250 \<Longrightarrow> 1 \<le> next_ticket t \<and> next_ticket t \<le> 250"
  by (simp add: next_ticket_def)

lemma next_ticket_mod:
  "0 \<le> t \<Longrightarrow> t \<le> 250 \<Longrightarrow> next_ticket t = t mod 250 + 1"
  by (simp add: next_ticket_def)

lemma advance_ticket_range:
  "0 \<le> t \<Longrightarrow> t \<le> 250 \<Longrightarrow>
   1 \<le> advance_ticket (Suc n) cbs t \<and> advance_ticket (Suc n) cbs t \<le> 250"
proof (induction n arbitrary: t)
  case 0
  then show ?case
    using next_ticket_range [of t] by (auto simp: advance_ticket_Suc split: if_splits)
next
  case (Suc n)
  have r: "0 \<le> next_ticket t" "next_ticket t \<le> 250"
    using next_ticket_range [OF Suc.prems] by simp_all
  show ?case
  proof (cases "cbs (next_ticket t) = None")
    case True
    then show ?thesis
      using next_ticket_range [OF Suc.prems] by (auto simp: advance_ticket_Suc [of "Suc n"])
  next
    case False
    then have "advance_ticket (Suc (Suc n)) cbs t = advance_ticket (Suc n) cbs (next_ticket t)"
      by (auto simp: advance_ticket_Suc [of "Suc n"])
    then show ?thesis using Suc.IH [OF r] by simp
  qed
qed

lemma advance_ticket_occupied:
  "0 \<le> t \<Longrightarrow> t \<le> 250 \<Longrightarrow> cbs (advance_ticket (Suc n) cbs t) \<noteq> None \<Longrightarrow>
   1 \<le> i \<Longrightarrow> i \<le> int (Suc n) \<Longrightarrow> cbs ((t + i - 1) mod 250 + 1) \<noteq> None"
proof (induction n arbitrary: t i)
  case 0
  then have i: "i = 1" by simp
  have "cbs (next_ticket t) \<noteq> None"
    using "0.prems"(3) by (auto simp: advance_ticket_Suc split: if_splits)
  then show ?case using i next_ticket_mod [OF "0.prems"(1,2)] by simp
next
  case (Suc n)
  have r: "0 \<le> next_ticket t" "next_ticket t \<le> 250"
    using next_ticket_range [OF Suc.prems(1,2)] by simp_all
  have occ: "cbs (next_ticket t) \<noteq> None"
  proof
    assume "cbs (next_ticket t) = None"
    then have "advance_ticket (Suc (Suc n)) cbs t = next_ticket t"
      by (auto simp: advance_ticket_Suc [of "Suc n"])
    with Suc.prems(3) \<open>cbs (next_ticket t) = None\<close> show False by simp
  qed
  then have eq: "advance_ticket (Suc (Suc n)) cbs t = advance_ticket (Suc n) cbs (next_ticket t)"
    by (auto simp: advance_ticket_Suc [of "Suc n"])
  show ?case
  proof (cases "i = 1")
    case True
    then show ?thesis using occ next_ticket_mod [OF Suc.prems(1,2)] by simp
  next
    case False
    then have i: "1 \<le> i - 1" "i - 1 \<le> int (Suc n)" using Suc.prems by auto
    have o2: "cbs (advance_ticket (Suc n) cbs (next_ticket t)) \<noteq> None"
      using Suc.prems(3) eq by simp
    have "cbs ((next_ticket t + (i - 1) - 1) mod 250 + 1) \<noteq> None"
      by (rule Suc.IH [OF r o2 i])
    moreover have "(next_ticket t + (i - 1) - 1) mod 250 = (t + i - 1) mod 250"
    proof -
      have "next_ticket t + (i - 1) - 1 = t mod 250 + (i - 1)"
        using next_ticket_mod [OF Suc.prems(1,2)] by simp
      moreover have "(t mod 250 + (i - 1)) mod 250 = (t + (i - 1)) mod 250"
        by (rule mod_add_left_eq)
      moreover have "t + (i - 1) = t + i - 1" by simp
      ultimately show ?thesis by (simp only:)
    qed
    ultimately show ?thesis by simp
  qed
qed

lemma ticket_covered:
  assumes "0 \<le> t" "t \<le> 250" "1 \<le> k" "k \<le> 250"
  shows "\<exists>i. 1 \<le> i \<and> i \<le> 250 \<and> (t + i - 1) mod 250 + 1 = (k::int)"
proof (cases "t < k")
  case True
  then have "1 \<le> k - t \<and> k - t \<le> 250 \<and> (t + (k - t) - 1) mod 250 + 1 = k"
    using assms by simp
  then show ?thesis by blast
next
  case False
  have "(t + (k - t + 250) - 1) mod 250 = (k - 1 + 250) mod 250" by (simp add: algebra_simps)
  also have "\<dots> = (k - 1) mod 250" by (simp only: mod_add_self2)
  also have "\<dots> = k - 1" using assms by simp
  finally have "1 \<le> k - t + 250 \<and> k - t + 250 \<le> 250 \<and> (t + (k - t + 250) - 1) mod 250 + 1 = k"
    using assms False by simp
  then show ?thesis by blast
qed

lemma advance_ticket_full:
  assumes "0 \<le> t" "t \<le> 250" "cbs (advance_ticket 250 cbs t) \<noteq> None" "1 \<le> k" "k \<le> 250"
  shows "cbs k \<noteq> None"
proof -
  obtain i where i: "1 \<le> i" "i \<le> 250" "(t + i - 1) mod 250 + 1 = k"
    using ticket_covered [OF assms(1,2,4,5)] by blast
  have "250 = Suc 249" by simp
  then have "cbs (advance_ticket (Suc 249) cbs t) \<noteq> None" using assms(3) by metis
  from advance_ticket_occupied [of t cbs 249 i, OF assms(1,2) this i(1)] i show ?thesis by simp
qed


text \<open>
  Claim C2 as stated fails: with tickets 1 to 249 outstanding the next call raises nothing
  and returns the ticket 250.
\<close>

theorem C2_ticket_250_counterexample:
  "reply_callbacks node_249_outstanding = (\<lambda>k. if 1 \<le> k \<and> k \<le> 249 then Some 0 else None)
   \<and> make_ticket_with_callback node_249_outstanding 7
       = (node_249_outstanding
            \<lparr>last_ticket := 250,
             reply_callbacks := (reply_callbacks node_249_outstanding)(250 \<mapsto> 7)\<rparr>,
          Inr 250)"
proof -
  have "advance_ticket 250 (reply_callbacks node_249_outstanding) (last_ticket node_249_outstanding) = 250"
    by code_simp
  then show ?thesis
    by (simp add: make_ticket_with_callback_def node_249_outstanding_def Let_def)
qed

text \<open>
  Claim C2, amended.  On a node whose \<^verbatim>\<open>_last_ticket\<close> is between 0 and 250 (it starts
  at 0 and only this method writes it), every ticket returned by
  \<^verbatim>\<open>make_ticket_with_callback\<close> lies in 1..250, was not registered before, and is
  registered with the callback afterwards; the call raises the internal error exactly
  when all 250 tickets 1..250 are registered in \<^verbatim>\<open>reply_callbacks\<close>.
\<close>

theorem C2_ticket_range_and_exhaustion:
  assumes "0 \<le> last_ticket b" "last_ticket b \<le> 250"
  shows "(\<forall>b' t. make_ticket_with_callback b cb = (b', Inr t) \<longrightarrow>
            1 \<le> t \<and> t \<le> 250 \<and> reply_callbacks b t = None
            \<and> b' = b\<lparr>last_ticket := t, reply_callbacks := (reply_callbacks b)(t \<mapsto> cb)\<rparr>)
       \<and> ((\<forall>k. 1 \<le> k \<and> k \<le> 250 \<longrightarrow> reply_callbacks b k \<noteq> None)
            \<longleftrightarrow> (\<exists>b'. make_ticket_with_callback b cb = (b', Inl (Exception ''All tickets are occupied''))))"
proof -
  let ?t = "advance_ticket 250 (reply_callbacks b) (last_ticket b)"
  have "250 = Suc 249" by simp
  then have "?t = advance_ticket (Suc 249) (reply_callbacks b) (last_ticket b)" by metis
  then have rng: "1 \<le> ?t" "?t \<le> 250"
    using advance_ticket_range [OF assms, of 249 "reply_callbacks b"] by simp_all
  show ?thesis
  proof (cases "reply_callbacks b ?t = None")
    case True
    then show ?thesis
      using rng by (auto simp: make_ticket_with_callback_def Let_def)
  next
    case False
    then have "\<forall>k. 1 \<le> k \<and> k \<le> 250 \<longrightarrow> reply_callbacks b k \<noteq> None"
      using advance_ticket_full [OF assms] by blast
    with False show ?thesis
      by (auto simp: make_ticket_with_callback_def Let_def)
  qed
qed


theorem C2_ticket_range_and_exhaustion_witness:
  "make_ticket_with_callback (ComponentBase_init ''n'' (PyInt 1)) 7
     = ((ComponentBase_init ''n'' (PyInt 1))\<lparr>last_ticket := 1, reply_callbacks := [1 \<mapsto> 7]\<rparr>, Inr 1)
   \<and> (\<exists>b'. make_ticket_with_callback node_250_outstanding 7
               = (b', Inl (Exception ''All tickets are occupied'')))"
proof
  have a1: "advance_ticket 250 (reply_callbacks (ComponentBase_init ''n'' (PyInt 1)))
          (last_ticket (ComponentBase_init ''n'' (PyInt 1))) = 1"
    by (simp add: ComponentBase_init_def advance_ticket_Suc [of 249, simplified] next_ticket_def)
  have r: "0 \<le> last_ticket (ComponentBase_init ''n'' (PyInt 1))"
          "last_ticket (ComponentBase_init ''n'' (PyInt 1)) \<le> 250"
    by (simp_all add: ComponentBase_init_def)
  have e: "make_ticket_with_callback (ComponentBase_init ''n'' (PyInt 1)) 7
          = (fst (make_ticket_with_callback (ComponentBase_init ''n'' (PyInt 1)) 7), Inr 1)"
    using a1 by (simp add: make_ticket_with_callback_def ComponentBase_init_def Let_def)
  from C2_ticket_range_and_exhaustion [OF r, of 7, THEN conjunct1, rule_format, OF e]
  have "fst (make_ticket_with_callback (ComponentBase_init ''n'' (PyInt 1)) 7)
          = (ComponentBase_init ''n'' (PyInt 1))\<lparr>last_ticket := 1, reply_callbacks := [1 \<mapsto> 7]\<rparr>"
    by (simp add: ComponentBase_init_def)
  with e show "make_ticket_with_callback (ComponentBase_init ''n'' (PyInt 1)) 7
     = ((ComponentBase_init ''n'' (PyInt 1))\<lparr>last_ticket := 1, reply_callbacks := [1 \<mapsto> 7]\<rparr>, Inr 1)"
    by simp
next
  have f: "\<forall>k. 1 \<le> k \<and> k \<le> 250 \<longrightarrow> reply_callbacks node_250_outstanding k \<noteq> None"
    by (simp add: node_250_outstanding_def)
  have r: "0 \<le> last_ticket node_250_outstanding" "last_ticket node_250_outstanding \<le> 250"
    by (simp_all add: node_250_outstanding_def)
  from C2_ticket_range_and_exhaustion [OF r, of 7, THEN conjunct2] f
  show "\<exists>b'. make_ticket_with_callback node_250_outstanding 7
               = (b', Inl (Exception ''All tickets are occupied''))"
    by (simp only:)
qed

subsection \<open>Losing the network: forget_network\<close>

text \<open>\<^verbatim>\<open>on_non_networked\<close> and \<^verbatim>\<open>on_networked\<close>: the component is told first, then
  every internal object.\<close>

definition on_non_networked :: "node \<Rightarrow> event list" where
  "on_non_networked b =
     Component_on_non_networked # map Internal_on_non_networked (internal_objects b)"

definition on_networked :: "node \<Rightarrow> event list" where
  "on_networked b =
     Component_on_networked # map Internal_on_networked (internal_objects b)"

text \<open>\<^verbatim>\<open>forget_network\<close>: a trace event, \<^verbatim>\<open>parent = 0\<close>, every key of
  \<^verbatim>\<open>_link_neighbors\<close> set to 0, then \<^verbatim>\<open>on_non_networked\<close>.  It assigns neither
  \<^verbatim>\<open>componentId\<close> nor \<^verbatim>\<open>routes\<close>.\<close>

definition forget_network :: "node \<Rightarrow> node \<times> event list" where
  "forget_network b =
     (b\<lparr>parent := 0,
        link_neighbors := (\<lambda>l. case link_neighbors b l of None \<Rightarrow> None | Some _ \<Rightarrow> Some 0)\<rparr>,
      Emit_event ''traceEvt'' ''Forget network'' # on_non_networked b)"

text \<open>A child node as \<^verbatim>\<open>_handle_link_newid\<close> leaves it: id 5, parent 1 reached over
  link 0.\<close>

definition child_node :: node where
  "child_node =
     (ComponentBase_init ''probe'' (PyInt 1234))
       \<lparr>link_neighbors := [0 \<mapsto> 1], links := [Some 0], routes := [1 \<mapsto> 0],
        parent := 1, priority := 49, componentId := 5\<rparr>"

text \<open>
  Claim C1 as stated fails: after \<^verbatim>\<open>forget_network\<close> the child node still has the
  id 5 and still routes component 1 over link 0.
\<close>

theorem C1_forget_network_counterexample:
  "componentId (fst (forget_network child_node)) = 5
   \<and> routes (fst (forget_network child_node)) 1 = Some 0"
  by (simp add: forget_network_def child_node_def ComponentBase_init_def)

text \<open>
  Claim C1, amended.  After \<^verbatim>\<open>forget_network\<close> returns, the node's parent is 0, every
  link of the neighbour table maps to 0 (and the table has the same links), the
  \<^verbatim>\<open>componentId\<close> and the routing table are what they were before, and
  \<^verbatim>\<open>on_non_networked\<close> has been fired after the trace event.
\<close>

theorem C1_forget_network_effect:
  "parent (fst (forget_network b)) = 0
   \<and> dom (link_neighbors (fst (forget_network b))) = dom (link_neighbors b)
   \<and> (\<forall>l \<in> dom (link_neighbors b). link_neighbors (fst (forget_network b)) l = Some 0)
   \<and> componentId (fst (forget_network b)) = componentId b
   \<and> routes (fst (forget_network b)) = routes b
   \<and> snd (forget_network b) = Emit_event ''traceEvt'' ''Forget network'' # on_non_networked b
   \<and> Component_on_non_networked \<in> set (snd (forget_network b))"
  by (auto simp: forget_network_def on_non_networked_def split: option.splits)

theorem C1_forget_network_effect_witness:
  "parent (fst (forget_network child_node)) = 0
   \<and> link_neighbors (fst (forget_network child_node)) 0 = Some 0
   \<and> componentId (fst (forget_network child_node)) = 5"
proof -
  have "0 \<in> dom (link_neighbors child_node)" "componentId child_node = 5"
    by (simp_all add: child_node_def ComponentBase_init_def)
  then show ?thesis
    using C1_forget_network_effect [of child_node] by auto
qed

subsection \<open>Routing: handle_message\<close>

text \<open>\<^verbatim>\<open>parent_link\<close>: \<^verbatim>\<open>None\<close> without a parent, else \<^verbatim>\<open>self.routes[self.parent]\<close>,
  which raises \<^verbatim>\<open>KeyError\<close> when the parent has no route.\<close>

definition parent_link :: "node \<Rightarrow> py_error + link option" where
  "parent_link b =
     (if parent b = 0 then Inr None
      else (case routes b (parent b) of
              None \<Rightarrow> Inl KeyError
            | Some l \<Rightarrow> Inr (Some l)))"

text \<open>\<^verbatim>\<open>list.index(x)\<close>: the position of the first element equal to \<^verbatim>\<open>x\<close>, or
  \<^verbatim>\<open>ValueError\<close>.\<close>

fun list_index :: "'a list \<Rightarrow> 'a \<Rightarrow> py_error + nat" where
  "list_index [] x = Inl ValueError"
| "list_index (y # ys) x =
     (if y = x then Inr 0
      else (case list_index ys x of Inl e \<Rightarrow> Inl e | Inr i \<Rightarrow> Inr (Suc i)))"

text \<open>
  The result of a handler: the events it caused, in order, and the exception that ended it,
  if any.

  The logging of a report (\<^verbatim>\<open>cmd == 'rep'\<close>) goes through the module global
  \<^verbatim>\<open>systemview.the_system\<close>, which is \<^verbatim>\<open>None\<close> until a \<^verbatim>\<open>SystemViewComponent\<close> is
  constructed.  For every key of \<^verbatim>\<open>msg['map']\<close> the node calls
  \<^verbatim>\<open>the_system.get_proxy(oid, make=True)\<close> and then \<^verbatim>\<open>register_report\<close> on the proxy.
  With no system view the first of these calls raises \<^verbatim>\<open>AttributeError\<close>.  A system view
  is given by what this pair of calls does for an object id: it returns (\<open>None\<close>), or it
  raises.  A pair of calls that returned is one event.
\<close>

type_synonym system_view = "pyatom \<Rightarrow> py_error option"

fun log_items :: "system_view option \<Rightarrow> pyatom list \<Rightarrow> event list \<times> py_error option" where
  "log_items the_system [] = ([], None)"
| "log_items the_system (oid # rest) =
     (case the_system of
        None \<Rightarrow> ([], Some AttributeError)
      | Some view \<Rightarrow>
          (case view oid of
             Some e \<Rightarrow> ([], Some e)
           | None \<Rightarrow>
               (let (evs, r) = log_items the_system rest
                in (Register_report oid # evs, r))))"

definition log_report :: "system_view option \<Rightarrow> msg \<Rightarrow> event list \<times> py_error option" where
  "log_report the_system m =
     (case map_of m ''map'' of
        None \<Rightarrow> ([], Some KeyError)
      | Some (PyDict kvs) \<Rightarrow> log_items the_system (map fst kvs)
      | Some _ \<Rightarrow> ([], Some AttributeError))"

text \<open>
  The last part of \<^verbatim>\<open>handle_message\<close> (from \<^verbatim>\<open>componentId = to % SSP_COMPONENT_MODULUS\<close>
  on): forward over the routing-table entry, else over the parent link, else report.  The
  index of the link is computed before the \<^verbatim>\<open>routeMsgEvt\<close> is emitted, so a
  \<^verbatim>\<open>ValueError\<close> leaves no event.  A \<^verbatim>\<open>Link\<close> object is always true, so
  \<^verbatim>\<open>if parent_link:\<close> tests for \<^verbatim>\<open>None\<close>.
\<close>

definition route_message :: "node \<Rightarrow> link \<Rightarrow> dest \<Rightarrow> msg \<Rightarrow> event list \<times> py_error option" where
  "route_message b from_link to m =
     (case to of
        Dest_null \<Rightarrow> ([], Some TypeError)
      | Dest_id t \<Rightarrow>
          (case routes b (t mod SSP_COMPONENT_MODULUS) of
             Some to_link \<Rightarrow>
               (if to_link = from_link then ([Link_err (Same_link_route from_link m)], None)
                else (case list_index (links b) (Some to_link) of
                        Inl e \<Rightarrow> ([], Some e)
                      | Inr i \<Rightarrow> ([Route_msg_evt i False m, Link_send to_link to m], None)))
           | None \<Rightarrow>
               (case parent_link b of
                  Inl e \<Rightarrow> ([], Some e)
                | Inr (Some pl) \<Rightarrow>
                    (if pl = from_link then ([Link_err (Same_link_parent from_link to m)], None)
                     else (case list_index (links b) (Some pl) of
                             Inl e \<Rightarrow> ([], Some e)
                           | Inr i \<Rightarrow> ([Route_msg_evt i True m, Link_send pl to m], None)))
                | Inr None \<Rightarrow> ([Link_err (No_route to m)], None))))"

text \<open>
  \<^verbatim>\<open>handle_message(from_link, to, msg, timestamp)\<close>, in a process whose system view is
  \<open>the_system\<close>.  The two branches that consume the message at this node
  (\<^verbatim>\<open>to == self.componentId\<close> with a non-zero id, and the link-local address 255 or
  \<^verbatim>\<open>'null'\<close>) are each recorded as one event and not followed further; every other message
  goes to \<^verbatim>\<open>route_message\<close>.
\<close>

definition handle_message ::
  "system_view option \<Rightarrow> node \<Rightarrow> link \<Rightarrow> dest \<Rightarrow> msg \<Rightarrow> event list \<times> py_error option" where
  "handle_message the_system b from_link to m =
     (if to = Dest_id SSP_INVALID_COMPONENT_ID then ([Link_err (Invalid_to m)], None)
      else (case map_of m ''a'' of
              None \<Rightarrow> ([], Some KeyError)
            | Some cmd \<Rightarrow>
                (let (log, err) = (if cmd = Atom (PyStr ''rep'') then log_report the_system m
                                   else ([], None))
                 in if err \<noteq> None then (log, err)
                    else if to = Dest_id (componentId b)
                            \<and> componentId b \<noteq> SSP_INVALID_COMPONENT_ID then
                      (log @ [Consumed_by_node], None)
                    else if to = Dest_id SSP_LINK_ID \<or> to = Dest_null then
                      (log @ [Consumed_link_local], None)
                    else (let (evs, r) = route_message b from_link to m
                          in (log @ evs, r)))))"





definition is_link_send_on :: "link \<Rightarrow> event \<Rightarrow> bool" where
  "is_link_send_on l e = (case e of Link_send l' to m \<Rightarrow> l' = l | _ \<Rightarrow> False)"




lemma log_items_only_reports:
  "e \<in> set (fst (log_items the_system oids)) \<Longrightarrow> \<exists>oid. e = Register_report oid"
proof (induction oids arbitrary: e)
  case Nil
  then show ?case by simp
next
  case (Cons oid rest)
  show ?case
  proof (cases the_system)
    case None
    with Cons.prems show ?thesis by simp
  next
    case (Some view)
    show ?thesis
    proof (cases "view oid")
      case None
      with Some Cons.prems
      have "e = Register_report oid \<or> e \<in> set (fst (log_items the_system rest))"
        by (simp add: split_def Let_def)
      with Cons.IH show ?thesis by blast
    next
      case (Some err)
      with \<open>the_system = Some view\<close> Cons.prems show ?thesis by simp
    qed
  qed
qed

lemma log_report_only_reports:
  "e \<in> set (fst (log_report the_system m)) \<Longrightarrow> \<exists>oid. e = Register_report oid"
  using log_items_only_reports
  by (auto simp: log_report_def split: option.splits pyval.splits)



lemma route_message_no_send_back:
  "\<not> list_ex (is_link_send_on from_link) (fst (route_message b from_link to m))"
  by (auto simp: route_message_def is_link_send_on_def split: dest.splits option.splits sum.splits)



text \<open>Whatever the destination and the message, \<^verbatim>\<open>handle_message\<close> sends nothing on
  the link the message came from.\<close>

lemma log_report_no_send_on:
  "\<not> list_ex (is_link_send_on l) (fst (log_report the_system m))"
proof
  assume "list_ex (is_link_send_on l) (fst (log_report the_system m))"
  then obtain e where e: "e \<in> set (fst (log_report the_system m))" "is_link_send_on l e"
    by (auto simp: list_ex_iff)
  from log_report_only_reports [OF e(1)] obtain oid where "e = Register_report oid" by blast
  with e(2) show False by (simp add: is_link_send_on_def)
qed

lemma handle_message_no_send_back:
  "\<not> list_ex (is_link_send_on from_link) (fst (handle_message the_system b from_link to m))"
proof (cases "map_of m ''a''")
  case None
  then show ?thesis by (simp add: handle_message_def is_link_send_on_def)
next
  case (Some cmd)
  have l: "\<not> list_ex (is_link_send_on from_link) (fst (log_report the_system m))"
    by (rule log_report_no_send_on)
  have r: "\<not> list_ex (is_link_send_on from_link) (fst (route_message b from_link to m))"
    by (rule route_message_no_send_back)
  show ?thesis
  proof (cases "cmd = Atom (PyStr ''rep'')")
    case True
    show ?thesis
      unfolding handle_message_def using Some True l r
      by (simp add: Let_def split_def is_link_send_on_def del: split_paired_All split_paired_Ex)
  next
    case False
    show ?thesis
      unfolding handle_message_def using Some False r
      by (simp add: Let_def split_def is_link_send_on_def del: split_paired_All split_paired_Ex)
  qed
qed




section \<open>The central authority (core/network.py)\<close>

text \<open>Python's \<^verbatim>\<open>str()\<close> on a scalar: the decimal digits of an integer, with a minus
  sign when negative.\<close>

definition digit_char :: "nat \<Rightarrow> char" where
  "digit_char d = char_of (48 + d)"

fun str_nat :: "nat \<Rightarrow> string" where
  "str_nat n = (if n < 10 then [digit_char n] else str_nat (n div 10) @ [digit_char (n mod 10)])"

declare str_nat.simps [simp del]

definition str_int :: "int \<Rightarrow> string" where
  "str_int i = (if i < 0 then CHR ''-'' # str_nat (nat (- i)) else str_nat (nat i))"

fun py_str :: "pyatom \<Rightarrow> string" where
  "py_str PyNone = ''None''"
| "py_str (PyInt i) = str_int i"
| "py_str (PyStr s) = s"

text \<open>The truth value of a scalar, as in \<^verbatim>\<open>if info['id']:\<close>.\<close>

fun py_truthy :: "pyatom \<Rightarrow> bool" where
  "py_truthy PyNone = False"
| "py_truthy (PyInt i) = (i \<noteq> 0)"
| "py_truthy (PyStr s) = (s \<noteq> [])"

text \<open>
  \<^verbatim>\<open>Central.init_all_local\<close>: one entry for every \<^verbatim>\<open>ComponentBase\<close> of the process
  (the global list \<^verbatim>\<open>all_componentbases\<close>, to which every node adds itself when it is
  constructed), holding the id, name and serial the node has at that moment.
\<close>

definition init_all_local :: "node list \<Rightarrow> central \<times> event list" where
  "init_all_local bases =
     (\<lparr>all_components =
          map (\<lambda>base. \<lparr>e_id = PyInt (componentId base), e_name = name base,
                        e_serial = serial base\<rparr>) bases\<rparr>,
      [Mark_as_updated ''components''])"

text \<open>\<^verbatim>\<open>Central.get_component_ids\<close>, \<^verbatim>\<open>key_to_info\<close> for the key \<^verbatim>\<open>'id'\<close>, and
  \<^verbatim>\<open>is_component_registered\<close>.\<close>

definition get_component_ids :: "central \<Rightarrow> pyatom list" where
  "get_component_ids c = map e_id (filter (\<lambda>info. py_truthy (e_id info)) (all_components c))"

definition id_to_info :: "central \<Rightarrow> pyatom \<Rightarrow> component_entry option" where
  "id_to_info c v = find (\<lambda>info. e_id info = v) (all_components c)"

definition is_component_registered :: "central \<Rightarrow> pyatom \<Rightarrow> bool" where
  "is_component_registered c v = (id_to_info c v \<noteq> None)"

text \<open>
  \<^verbatim>\<open>Central.lookupId(string)\<close>.  The argument is first converted with \<^verbatim>\<open>str()\<close>; it is
  then compared, as a \<^verbatim>\<open>str\<close>, with the entry's name, with the entry's serial as it is
  stored, and with \<^verbatim>\<open>str()\<close> of the entry's id.
\<close>

fun lookupId_loop :: "component_entry list \<Rightarrow> string \<Rightarrow> pyatom" where
  "lookupId_loop [] string = PyInt SSP_INVALID_COMPONENT_ID"
| "lookupId_loop (component # rest) string =
     (if string = e_name component \<or> PyStr string = e_serial component
         \<or> string = py_str (e_id component)
      then e_id component
      else lookupId_loop rest string)"

definition lookupId :: "central \<Rightarrow> pyatom \<Rightarrow> pyatom" where
  "lookupId c arg = lookupId_loop (all_components c) (py_str arg)"

text \<open>\<^verbatim>\<open>Central.act_as_central\<close>: the assertion, the three assignments, the three
  notifications and \<^verbatim>\<open>on_networked\<close>.\<close>

definition Central_act_as_central :: "node \<Rightarrow> py_error + node \<times> event list" where
  "Central_act_as_central base =
     (if \<not> base_priority base > 0 then Inl AssertionError
      else Inr (base\<lparr>priority := base_priority base, componentId := SSP_CENTRAL_ID, parent := 0\<rparr>,
                [Mark_as_updated ''parent'', Mark_as_updated ''priority'',
                 Mark_as_updated ''componentId''] @ on_networked base))"

text \<open>
  \<^verbatim>\<open>ComponentBase.act_as_central\<close> for the node at position \<open>i\<close> of
  \<^verbatim>\<open>all_componentbases\<close>: the \<^verbatim>\<open>Central\<close> object is constructed first (its
  constructor runs \<^verbatim>\<open>init_all_local\<close>), stored in \<^verbatim>\<open>_central\<close>, and only then told to
  \<^verbatim>\<open>act_as_central\<close>.
\<close>

definition ComponentBase_act_as_central :: "node list \<Rightarrow> nat \<Rightarrow> py_error + node list \<times> event list" where
  "ComponentBase_act_as_central bases i =
     (if central_of (bases ! i) \<noteq> None then Inl AssertionError
      else (let (c, evs1) = init_all_local bases;
                base1 = (bases ! i)\<lparr>central_of := Some c\<rparr>
            in case Central_act_as_central base1 of
                 Inl e \<Rightarrow> Inl e
               | Inr (base2, evs2) \<Rightarrow> Inr (bases[i := base2], evs1 @ evs2)))"

text \<open>A node configured to become central (\<^verbatim>\<open>base_priority\<close> 50), alone in its process.\<close>

definition hub_node :: node where
  "hub_node = (ComponentBase_init ''hub'' (PyInt 7))\<lparr>base_priority := 50\<rparr>"

text \<open>
  Claim C9.  When a node with \<^verbatim>\<open>componentId\<close> 0, no \<^verbatim>\<open>Central\<close> object yet and a
  positive \<^verbatim>\<open>base_priority\<close> runs \<^verbatim>\<open>act_as_central\<close>, the call succeeds, the node's id
  becomes 1, and the directory entry made for the node itself holds the id 0 it had when
  the \<^verbatim>\<open>Central\<close> object was constructed; if no node of the process had the id 1 at that
  moment, the directory has no entry for id 1.
\<close>

theorem C9_central_directory_records_old_id:
  assumes "i < length bases"
      and "componentId (bases ! i) = 0"
      and "central_of (bases ! i) = None"
      and "base_priority (bases ! i) > 0"
  shows "\<exists>bases' evs c.
           ComponentBase_act_as_central bases i = Inr (bases', evs)
           \<and> componentId (bases' ! i) = SSP_CENTRAL_ID
           \<and> central_of (bases' ! i) = Some c
           \<and> length (all_components c) = length bases
           \<and> all_components c ! i
               = \<lparr>e_id = PyInt 0, e_name = name (bases ! i), e_serial = serial (bases ! i)\<rparr>
           \<and> ((\<forall>b \<in> set bases. componentId b \<noteq> SSP_CENTRAL_ID)
                \<longrightarrow> \<not> is_component_registered c (PyInt SSP_CENTRAL_ID)
                    \<and> PyInt SSP_CENTRAL_ID \<notin> set (get_component_ids c))"
proof -
  let ?c = "\<lparr>all_components =
              map (\<lambda>base. \<lparr>e_id = PyInt (componentId base), e_name = name base,
                            e_serial = serial base\<rparr>) bases\<rparr>"
  let ?base2 = "(bases ! i)\<lparr>central_of := Some ?c, priority := base_priority (bases ! i),
                  componentId := SSP_CENTRAL_ID, parent := 0\<rparr>"
  let ?evs = "[Mark_as_updated ''components'', Mark_as_updated ''parent'',
               Mark_as_updated ''priority'', Mark_as_updated ''componentId'']
              @ on_networked ((bases ! i)\<lparr>central_of := Some ?c\<rparr>)"
  have run: "ComponentBase_act_as_central bases i = Inr (bases[i := ?base2], ?evs)"
    using assms(3,4)
    by (simp add: ComponentBase_act_as_central_def Central_act_as_central_def
        init_all_local_def Let_def)
  have node: "componentId (bases[i := ?base2] ! i) = SSP_CENTRAL_ID"
             "central_of (bases[i := ?base2] ! i) = Some ?c"
    using assms(1) by simp_all
  have len: "length (all_components ?c) = length bases" by simp
  have entry: "all_components ?c ! i
      = \<lparr>e_id = PyInt 0, e_name = name (bases ! i), e_serial = serial (bases ! i)\<rparr>"
    using assms(1,2) by simp
  have none: "(\<forall>b \<in> set bases. componentId b \<noteq> SSP_CENTRAL_ID)
        \<longrightarrow> \<not> is_component_registered ?c (PyInt SSP_CENTRAL_ID)
            \<and> PyInt SSP_CENTRAL_ID \<notin> set (get_component_ids ?c)"
    by (auto simp: is_component_registered_def id_to_info_def get_component_ids_def
        find_None_iff)
  from run node len entry none show ?thesis by blast
qed

theorem C9_central_directory_records_old_id_witness:
  "(\<exists>bases' evs c.
      ComponentBase_act_as_central [hub_node] 0 = Inr (bases', evs)
      \<and> componentId (bases' ! 0) = 1
      \<and> central_of (bases' ! 0) = Some c
      \<and> all_components c = [\<lparr>e_id = PyInt 0, e_name = ''hub'', e_serial = PyInt 7\<rparr>]
      \<and> \<not> is_component_registered c (PyInt 1))"
proof -
  have "(0::nat) < length [hub_node]" "componentId ([hub_node] ! 0) = 0"
       "central_of ([hub_node] ! 0) = None" "base_priority ([hub_node] ! 0) > 0"
       "\<forall>b \<in> set [hub_node]. componentId b \<noteq> SSP_CENTRAL_ID"
    by (simp_all add: hub_node_def ComponentBase_init_def SSP_CENTRAL_ID_def)
  from C9_central_directory_records_old_id [OF this(1-4)] this(5)
  obtain bases' evs c where
    r: "ComponentBase_act_as_central [hub_node] 0 = Inr (bases', evs)"
       "componentId (bases' ! 0) = SSP_CENTRAL_ID" "central_of (bases' ! 0) = Some c"
       "length (all_components c) = length [hub_node]"
       "all_components c ! 0
          = \<lparr>e_id = PyInt 0, e_name = name ([hub_node] ! 0), e_serial = serial ([hub_node] ! 0)\<rparr>"
       "\<not> is_component_registered c (PyInt SSP_CENTRAL_ID)"
    by blast
  from r(4,5) have "all_components c = [\<lparr>e_id = PyInt 0, e_name = ''hub'', e_serial = PyInt 7\<rparr>]"
    by (cases "all_components c") (simp_all add: hub_node_def ComponentBase_init_def)
  with r show ?thesis by (simp add: SSP_CENTRAL_ID_def)
qed

text \<open>A directory with one registered component: id 2, name \<^verbatim>\<open>probe\<close>, serial 1234, as
  \<^verbatim>\<open>_do_register\<close> appends it from a \<^verbatim>\<open>cinfo\<close> message.\<close>

definition probe_directory :: central where
  "probe_directory =
     \<lparr>all_components = [\<lparr>e_id = PyInt 2, e_name = ''probe'', e_serial = PyInt 1234\<rparr>]\<rparr>"

text \<open>
  Claim C6.  \<^verbatim>\<open>lookupId\<close> compares the string with the entry's serial as stored, an
  integer, so the comparison is never true: looking up the decimal string of the registered
  component's serial returns the invalid id 0, not the component's id 2.  The lookups by
  name and by the decimal string of the id return 2, and a string that matches nothing
  returns 0.
\<close>

theorem C6_lookupId_by_serial_returns_invalid_id:
  "py_str (PyInt 1234) = ''1234''
   \<and> lookupId probe_directory (PyStr ''1234'') = PyInt 0
   \<and> lookupId probe_directory (PyStr ''probe'') = PyInt 2
   \<and> lookupId probe_directory (PyStr ''2'') = PyInt 2
   \<and> lookupId probe_directory (PyStr ''nobody'') = PyInt 0"
  by code_simp

section \<open>Fixpoint types (sspt/pyObjects.py)\<close>

text \<open>The \<^verbatim>\<open>is_two_complement\<close> argument of the constructor: a \<^verbatim>\<open>bool\<close>, or an
  integer as \<^verbatim>\<open>from_schemaBin\<close> reads it.\<close>

datatype py_flag = Flag_bool bool | Flag_int int

fun flag_truth :: "py_flag \<Rightarrow> bool" where
  "flag_truth (Flag_bool v) = v"
| "flag_truth (Flag_int n) = (n \<noteq> 0)"

record fixpoint_type =
  is_two_complement :: bool
  bits :: int
  decimal_count :: int
  raw_null_value :: int

text \<open>\<^verbatim>\<open>FixpointTypeClass.__init__\<close> with its three assertions.\<close>

definition FixpointTypeClass_init :: "py_flag \<Rightarrow> int \<Rightarrow> int \<Rightarrow> py_error + fixpoint_type" where
  "FixpointTypeClass_init itc nbits ndec =
     (if \<not> (case itc of Flag_bool v \<Rightarrow> True | Flag_int n \<Rightarrow> n = 0 \<or> n = 1)
        then Inl AssertionError
      else if \<not> (nbits = 8 \<or> nbits = 16 \<or> nbits = 32) then Inl AssertionError
      else if \<not> (ndec \<ge> 0 \<and> ndec < 32) then Inl AssertionError
      else Inr \<lparr>is_two_complement = flag_truth itc, bits = nbits, decimal_count = ndec,
                raw_null_value = (if flag_truth itc then - (2 ^ nat (nbits - 1))
                                  else 2 ^ nat nbits - 1)\<rparr>)"

text \<open>A \<^verbatim>\<open>Fixpoint\<close> value: its type and its raw integer.\<close>

record fixpoint =
  fp_type :: fixpoint_type
  raw_value :: int

text \<open>
  \<^verbatim>\<open>FixpointTypeClass.from_pyValue\<close> for \<^verbatim>\<open>None\<close> and for a Python \<^verbatim>\<open>int\<close>, where
  \<^verbatim>\<open>int(value * 10 ** decimal_count)\<close> is exact.  (A \<^verbatim>\<open>float\<close> argument is scaled in
  floating point and is not part of this model.)
\<close>

definition from_pyValue :: "fixpoint_type \<Rightarrow> int option \<Rightarrow> py_error + fixpoint" where
  "from_pyValue T v =
     (case v of
        None \<Rightarrow> Inr \<lparr>fp_type = T, raw_value = raw_null_value T\<rparr>
      | Some x \<Rightarrow>
          (if \<not> is_two_complement T \<and> x < 0 then Inl TypeException
           else Inr \<lparr>fp_type = T, raw_value = x * 10 ^ nat (decimal_count T)\<rparr>))"

text \<open>\<^verbatim>\<open>Fixpoint.is_null\<close>.\<close>

definition is_null :: "fixpoint \<Rightarrow> bool" where
  "is_null f = (raw_value f = raw_null_value (fp_type f))"

text \<open>
  Claim C8.  For 8, 16 or 32 bits and a decimal count from 0 to 31 the constructor
  succeeds (with the flag given as a \<^verbatim>\<open>bool\<close> or as 0 or 1, to the same type); the
  type's null sentinel is \<open>-(2^(bits-1))\<close> when it is two's complement and
  \<open>2^bits - 1\<close> when it is unsigned; \<^verbatim>\<open>from_pyValue(None)\<close> returns the value with that
  raw value; and a value of the type is null exactly when its raw value is the sentinel.
\<close>

theorem C8_fixpoint_null_sentinel:
  assumes "nbits = 8 \<or> nbits = 16 \<or> nbits = 32"
      and "0 \<le> ndec" "ndec < 32"
  shows "\<exists>T. FixpointTypeClass_init (Flag_bool signed) nbits ndec = Inr T
           \<and> FixpointTypeClass_init (Flag_int (if signed then 1 else 0)) nbits ndec = Inr T
           \<and> bits T = nbits \<and> is_two_complement T = signed
           \<and> raw_null_value T = (if signed then - (2 ^ nat (nbits - 1)) else 2 ^ nat nbits - 1)
           \<and> from_pyValue T None = Inr \<lparr>fp_type = T, raw_value = raw_null_value T\<rparr>
           \<and> (\<forall>v. is_null \<lparr>fp_type = T, raw_value = v\<rparr>
                  \<longleftrightarrow> v = (if signed then - (2 ^ nat (nbits - 1)) else 2 ^ nat nbits - 1))"
  using assms
  by (auto simp: FixpointTypeClass_init_def from_pyValue_def is_null_def)

theorem C8_fixpoint_null_sentinel_witness:
  "(\<exists>T. FixpointTypeClass_init (Flag_bool True) 16 2 = Inr T
        \<and> raw_null_value T = - 32768
        \<and> from_pyValue T None = Inr \<lparr>fp_type = T, raw_value = - 32768\<rparr>
        \<and> is_null \<lparr>fp_type = T, raw_value = - 32768\<rparr>
        \<and> \<not> is_null \<lparr>fp_type = T, raw_value = 32767\<rparr>)
   \<and> (\<exists>T. FixpointTypeClass_init (Flag_bool False) 8 0 = Inr T
        \<and> raw_null_value T = 255
        \<and> from_pyValue T None = Inr \<lparr>fp_type = T, raw_value = 255\<rparr>
        \<and> is_null \<lparr>fp_type = T, raw_value = 255\<rparr>
        \<and> \<not> is_null \<lparr>fp_type = T, raw_value = 0\<rparr>)"
proof
  have "(16::int) = 8 \<or> (16::int) = 16 \<or> (16::int) = 32" "(0::int) \<le> 2" "(2::int) < 32"
    by simp_all
  from C8_fixpoint_null_sentinel [OF this, of True]
  show "\<exists>T. FixpointTypeClass_init (Flag_bool True) 16 2 = Inr T
        \<and> raw_null_value T = - 32768
        \<and> from_pyValue T None = Inr \<lparr>fp_type = T, raw_value = - 32768\<rparr>
        \<and> is_null \<lparr>fp_type = T, raw_value = - 32768\<rparr>
        \<and> \<not> is_null \<lparr>fp_type = T, raw_value = 32767\<rparr>"
    by auto
next
  have "(8::int) = 8 \<or> (8::int) = 16 \<or> (8::int) = 32" "(0::int) \<le> 0" "(0::int) < 32"
    by simp_all
  from C8_fixpoint_null_sentinel [OF this, of False]
  show "\<exists>T. FixpointTypeClass_init (Flag_bool False) 8 0 = Inr T
        \<and> raw_null_value T = 255
        \<and> from_pyValue T None = Inr \<lparr>fp_type = T, raw_value = 255\<rparr>
        \<and> is_null \<lparr>fp_type = T, raw_value = 255\<rparr>
        \<and> \<not> is_null \<lparr>fp_type = T, raw_value = 0\<rparr>"
    by auto
qed

section \<open>The registry (sspt/ontology.py)\<close>











end
